theory Spec2Isabelle
  imports Main
begin

section \<open>Python values used by the task manager\<close>

text \<open>
  The program is three Python modules: \<^verbatim>\<open>todo_manager.py\<close> (class \<^verbatim>\<open>TodoManager\<close>),
  \<^verbatim>\<open>storage.py\<close> (class \<^verbatim>\<open>JSONStorage\<close>) and \<^verbatim>\<open>main.py\<close> (the menu). Both classes
  import \<^verbatim>\<open>Task\<close> from a module \<^verbatim>\<open>models\<close> whose text is not among the sources.

  Python integers are \<open>int\<close>. A Python \<^verbatim>\<open>str\<close> is a \<open>string\<close>, one \<open>char\<close> for each
  code point, so \<open>length\<close> is Python's \<^verbatim>\<open>len\<close> for text below code point 256.
  Every exception the code can raise is a value of \<open>error\<close>, and a method call is a
  function from the manager before the call to the outcome and the manager after it.
\<close>

datatype violated = TitleEmpty | TitleTooLong | DescriptionTooLong

datatype error =
    ValidationError violated
  | KeyError string
  | TypeError
  | AttributeError
  | ValueError

text \<open>What \<^verbatim>\<open>json.load\<close> returns. A float keeps its literal text: no operation here computes with it.\<close>

datatype json =
    JNull
  | JBool bool
  | JInt int
  | JFloat string
  | JStr string
  | JList "json list"
  | JObj "(string \<times> json) list"

subsection \<open>Strings\<close>

text \<open>\<^verbatim>\<open>str.isspace\<close> on one character, for the code points below 256.\<close>

definition isspace :: "char \<Rightarrow> bool" where
  "isspace c = ((of_char c :: nat) \<in> {9, 10, 11, 12, 13, 28, 29, 30, 31, 32, 133, 160})"

text \<open>\<^verbatim>\<open>str.strip()\<close>: white space removed at both ends.\<close>

definition strip :: "string \<Rightarrow> string" where
  "strip s = rev (dropWhile isspace (rev (dropWhile isspace s)))"

subsection \<open>Timestamps\<close>

text \<open>A naive \<^verbatim>\<open>datetime\<close>, as \<^verbatim>\<open>datetime.now()\<close> returns it.\<close>

record datetime =
  year :: nat
  month :: nat
  day :: nat
  hour :: nat
  minute :: nat
  second :: nat
  microsecond :: nat

definition is_leap :: "nat \<Rightarrow> bool" where
  "is_leap y = (y mod 4 = 0 \<and> (y mod 100 \<noteq> 0 \<or> y mod 400 = 0))"

definition days_in_month :: "nat \<Rightarrow> nat \<Rightarrow> nat" where
  "days_in_month y m =
     (if m = 2 then (if is_leap y then 29 else 28)
      else if m = 4 \<or> m = 6 \<or> m = 9 \<or> m = 11 then 30 else 31)"

text \<open>The ranges the \<^verbatim>\<open>datetime\<close> constructor enforces.\<close>

definition valid_datetime :: "datetime \<Rightarrow> bool" where
  "valid_datetime d =
     (1 \<le> year d \<and> year d \<le> 9999 \<and> 1 \<le> month d \<and> month d \<le> 12 \<and>
      1 \<le> day d \<and> day d \<le> days_in_month (year d) (month d) \<and>
      hour d < 24 \<and> minute d < 60 \<and> second d < 60 \<and> microsecond d < 1000000)"

definition digit_char :: "nat \<Rightarrow> char" where
  "digit_char d = char_of (48 + d)"

definition is_digit :: "char \<Rightarrow> bool" where
  "is_digit c = (48 \<le> (of_char c :: nat) \<and> (of_char c :: nat) \<le> 57)"

definition digit_val :: "char \<Rightarrow> nat" where
  "digit_val c = of_char c - 48"

text \<open>\<open>zpad n k\<close> is Python's \<^verbatim>\<open>'%0nd' % k\<close> for \<open>k < 10 ^ n\<close>: \<open>n\<close> decimal digits, zero padded.\<close>

fun zpad :: "nat \<Rightarrow> nat \<Rightarrow> string" where
  "zpad 0 k = []"
| "zpad (Suc n) k = digit_char (k div 10 ^ n mod 10) # zpad n k"

text \<open>Reads exactly \<open>n\<close> decimal digits from the front of a string.\<close>

fun read_digits :: "nat \<Rightarrow> nat \<Rightarrow> string \<Rightarrow> (nat \<times> string) option" where
  "read_digits 0 acc s = Some (acc, s)"
| "read_digits (Suc n) acc [] = None"
| "read_digits (Suc n) acc (c # s) =
     (if is_digit c then read_digits n (10 * acc + digit_val c) s else None)"

fun expect :: "char \<Rightarrow> string \<Rightarrow> string option" where
  "expect c [] = None"
| "expect c (x # s) = (if x = c then Some s else None)"

text \<open>
  Modelled from the spec: \<^verbatim>\<open>datetime.isoformat\<close> as \<^verbatim>\<open>Task.to_dict\<close> of the absent module
  \<^verbatim>\<open>models\<close> uses it for \<open>created_at\<close>, which section 6 of the specification describes as an
  ISO-8601 timestamp string: \<^verbatim>\<open>YYYY-MM-DDTHH:MM:SS\<close>, followed by \<^verbatim>\<open>.ffffff\<close> when the
  microseconds are not zero.
\<close>

definition isoformat :: "datetime \<Rightarrow> string" where
  "isoformat d =
     zpad 4 (year d) @ ''-'' @ zpad 2 (month d) @ ''-'' @ zpad 2 (day d) @ ''T'' @
     zpad 2 (hour d) @ '':'' @ zpad 2 (minute d) @ '':'' @ zpad 2 (second d) @
     (if microsecond d = 0 then [] else ''.'' @ zpad 6 (microsecond d))"

definition parse_iso :: "string \<Rightarrow> datetime option" where
  "parse_iso s0 =
     Option.bind (read_digits 4 0 s0) (\<lambda>(y, s1).
     Option.bind (expect CHR ''-'' s1) (\<lambda>s2.
     Option.bind (read_digits 2 0 s2) (\<lambda>(mo, s3).
     Option.bind (expect CHR ''-'' s3) (\<lambda>s4.
     Option.bind (read_digits 2 0 s4) (\<lambda>(dd, s5).
     Option.bind (expect CHR ''T'' s5) (\<lambda>s6.
     Option.bind (read_digits 2 0 s6) (\<lambda>(h, s7).
     Option.bind (expect CHR '':'' s7) (\<lambda>s8.
     Option.bind (read_digits 2 0 s8) (\<lambda>(mi, s9).
     Option.bind (expect CHR '':'' s9) (\<lambda>s10.
     Option.bind (read_digits 2 0 s10) (\<lambda>(se, s11).
     Option.bind
       (if s11 = [] then Some (0, [])
        else Option.bind (expect CHR ''.'' s11) (read_digits 6 0)) (\<lambda>(us, s12).
     if s12 = [] then
       Some \<lparr>year = y, month = mo, day = dd, hour = h, minute = mi, second = se,
             microsecond = us\<rparr>
     else None))))))))))))"

text \<open>
  Modelled from the spec: \<^verbatim>\<open>datetime.fromisoformat\<close> as \<^verbatim>\<open>Task.from_dict\<close> of the absent
  module \<^verbatim>\<open>models\<close> uses it: it reads the two layouts \<open>isoformat\<close> writes and raises
  \<^verbatim>\<open>ValueError\<close> on any other text and on a field out of range.
\<close>

definition fromisoformat :: "string \<Rightarrow> error + datetime" where
  "fromisoformat s =
     (case parse_iso s of
        None \<Rightarrow> Inl ValueError
      | Some d \<Rightarrow> if valid_datetime d then Inr d else Inl ValueError)"

section \<open>The task entity\<close>

text \<open>The fields of \<^verbatim>\<open>Task\<close>; \<open>tid\<close> is the field \<^verbatim>\<open>id\<close>.\<close>

record Task =
  tid :: int
  title :: string
  description :: string
  completed :: bool
  created_at :: datetime

text \<open>
  Modelled from the spec: the constructor \<^verbatim>\<open>Task(id, title, description, completed, created_at)\<close>
  of the absent module \<^verbatim>\<open>models\<close>. \<^verbatim>\<open>add_task\<close> has no check of its own and documents
  that it raises when title or description validation fails, so the constraints of section 3
  of the specification (a title with a character that is not white space and of at most 200
  characters, a description of at most 1000 characters) are checked where the task is built,
  and the error names the constraint that is violated. The bound of 200 is on the title as
  it is passed, as section 8 states the boundary (length 200 accepted, 201 rejected).
\<close>

definition Task_init :: "int \<Rightarrow> string \<Rightarrow> string \<Rightarrow> bool \<Rightarrow> datetime \<Rightarrow> error + Task" where
  "Task_init i ttl descr c at =
     (if strip ttl = [] then Inl (ValidationError TitleEmpty)
      else if length ttl > 200 then Inl (ValidationError TitleTooLong)
      else if length descr > 1000 then Inl (ValidationError DescriptionTooLong)
      else Inr \<lparr>tid = i, title = ttl, description = descr, completed = c, created_at = at\<rparr>)"

text \<open>The constraint an error names holds of the arguments.\<close>

fun violates :: "violated \<Rightarrow> string \<Rightarrow> string \<Rightarrow> bool" where
  "violates TitleEmpty ttl descr = (strip ttl = [])"
| "violates TitleTooLong ttl descr = (length ttl > 200)"
| "violates DescriptionTooLong ttl descr = (length descr > 1000)"

text \<open>A valid task: one the constructor builds, with a timestamp \<^verbatim>\<open>datetime\<close> can hold.\<close>

definition valid_Task :: "Task \<Rightarrow> bool" where
  "valid_Task t =
     (strip (title t) \<noteq> [] \<and> length (title t) \<le> 200 \<and> length (description t) \<le> 1000 \<and>
      valid_datetime (created_at t))"

text \<open>
  Modelled from the spec: \<^verbatim>\<open>Task.to_dict\<close> of the absent module \<^verbatim>\<open>models\<close>, the conversion
  to a plain key-value record of sections 4.1 and 6: the keys \<^verbatim>\<open>id\<close> (integer), \<^verbatim>\<open>title\<close>,
  \<^verbatim>\<open>description\<close> (strings), \<^verbatim>\<open>completed\<close> (boolean) and \<^verbatim>\<open>created_at\<close> (timestamp string).
\<close>

definition to_dict :: "Task \<Rightarrow> (string \<times> json) list" where
  "to_dict t =
     [(''id'', JInt (tid t)),
      (''title'', JStr (title t)),
      (''description'', JStr (description t)),
      (''completed'', JBool (completed t)),
      (''created_at'', JStr (isoformat (created_at t)))]"

text \<open>\<^verbatim>\<open>d[key]\<close> and \<^verbatim>\<open>d.get(key, default)\<close> on a value that \<^verbatim>\<open>json.load\<close> returned.\<close>

fun getitem :: "json \<Rightarrow> string \<Rightarrow> error + json" where
  "getitem (JObj kvs) k = (case map_of kvs k of None \<Rightarrow> Inl (KeyError k) | Some v \<Rightarrow> Inr v)"
| "getitem _ k = Inl TypeError"

fun dict_get :: "json \<Rightarrow> string \<Rightarrow> json \<Rightarrow> error + json" where
  "dict_get (JObj kvs) k dflt = (case map_of kvs k of None \<Rightarrow> Inr dflt | Some v \<Rightarrow> Inr v)"
| "dict_get _ k dflt = Inl AttributeError"

text \<open>
  Modelled from the spec: \<^verbatim>\<open>Task.from_dict\<close> of the absent module \<^verbatim>\<open>models\<close>, the
  reconstruction of section 4.1: \<^verbatim>\<open>description\<close> defaults to the empty string and
  \<^verbatim>\<open>completed\<close> to false when absent, the other keys are required, and the task is built by the
  constructor. A value that is not of the type section 6 gives its key has no counterpart in
  \<open>Task\<close> and is an error.
\<close>

definition from_dict :: "json \<Rightarrow> error + Task" where
  "from_dict data =
     (case getitem data ''id'' of Inl e \<Rightarrow> Inl e | Inr (JInt i) \<Rightarrow>
     (case getitem data ''title'' of Inl e \<Rightarrow> Inl e | Inr (JStr ttl) \<Rightarrow>
     (case dict_get data ''description'' (JStr []) of Inl e \<Rightarrow> Inl e | Inr (JStr descr) \<Rightarrow>
     (case dict_get data ''completed'' (JBool False) of Inl e \<Rightarrow> Inl e | Inr (JBool c) \<Rightarrow>
     (case getitem data ''created_at'' of Inl e \<Rightarrow> Inl e | Inr (JStr text) \<Rightarrow>
     (case fromisoformat text of Inl e \<Rightarrow> Inl e | Inr at \<Rightarrow> Task_init i ttl descr c at)
      | Inr _ \<Rightarrow> Inl TypeError)
      | Inr _ \<Rightarrow> Inl TypeError)
      | Inr _ \<Rightarrow> Inl TypeError)
      | Inr _ \<Rightarrow> Inl TypeError)
      | Inr _ \<Rightarrow> Inl TypeError)"

section \<open>The storage handler\<close>

text \<open>
  \<^verbatim>\<open>JSONStorage\<close> reads and writes two files: the one at \<^verbatim>\<open>self.filepath\<close> and its backup
  at \<^verbatim>\<open>self.filepath.with_suffix('.json.backup')\<close>. \<open>None\<close> is a file that does not exist.
\<close>

record files =
  target_file :: "string option"
  backup_file :: "string option"

text \<open>
  What the file system does during one \<^verbatim>\<open>save\<close>: nothing fails, or \<^verbatim>\<open>shutil.copy\<close>
  (called only when the target exists) raises and leaves the backup path as given, or
  opening or writing the target raises and leaves the target path as given.
\<close>

datatype io = IoOk | CopyFails "string option" | WriteFails "string option"

text \<open>
  \<^verbatim>\<open>JSONStorage.save\<close>. \<^verbatim>\<open>json.dump\<close> is the parameter \<open>json_dump\<close>. Every exception is
  caught and turns into the result \<^verbatim>\<open>False\<close>.
\<close>

definition save :: "(json \<Rightarrow> string) \<Rightarrow> files \<Rightarrow> Task list \<Rightarrow> int \<Rightarrow> io \<Rightarrow> bool \<times> files" where
  "save json_dump fs tasks next_id env =
     (let copied =
        (case target_file fs of
           None \<Rightarrow> Inr fs
         | Some old \<Rightarrow>
             (case env of
                CopyFails left \<Rightarrow> Inl (fs\<lparr>backup_file := left\<rparr>)
              | _ \<Rightarrow> Inr (fs\<lparr>backup_file := Some old\<rparr>)))
      in case copied of
           Inl fs1 \<Rightarrow> (False, fs1)
         | Inr fs1 \<Rightarrow>
             (let data = JObj [(''tasks'', JList (map (\<lambda>task. JObj (to_dict task)) tasks)),
                               (''next_id'', JInt next_id)]
              in case env of
                   WriteFails left \<Rightarrow> (False, fs1\<lparr>target_file := left\<rparr>)
                 | _ \<Rightarrow> (True, fs1\<lparr>target_file := Some (json_dump data)\<rparr>)))"







section \<open>The task manager\<close>

text \<open>
  The attributes of \<^verbatim>\<open>TodoManager\<close>. \<open>storage\<close> holds the two files its \<^verbatim>\<open>JSONStorage\<close>
  works on. The tasks are values: each \<^verbatim>\<open>Task\<close> object is created by \<^verbatim>\<open>add_task\<close>,
  \<^verbatim>\<open>update_task\<close> or \<^verbatim>\<open>load\<close> and stored once, so a reference into \<^verbatim>\<open>self.tasks\<close> is a
  position of the list.
\<close>

record TodoManager =
  storage :: files
  tasks :: "Task list"
  next_id :: int

definition save_to_storage :: "(json \<Rightarrow> string) \<Rightarrow> TodoManager \<Rightarrow> io \<Rightarrow> bool \<times> TodoManager" where
  "save_to_storage json_dump m env =
     (case save json_dump (storage m) (tasks m) (next_id m) env of
        (ok, fs) \<Rightarrow> (ok, m\<lparr>storage := fs\<rparr>))"

text \<open>\<^verbatim>\<open>add_task\<close>; \<open>now\<close> is the value of \<^verbatim>\<open>datetime.now()\<close>.\<close>

definition add_task ::
  "(json \<Rightarrow> string) \<Rightarrow> TodoManager \<Rightarrow> string \<Rightarrow> string \<Rightarrow> datetime \<Rightarrow> io \<Rightarrow>
     (error + Task) \<times> TodoManager" where
  "add_task json_dump m ttl descr now env =
     (case Task_init (next_id m) ttl descr False now of
        Inl e \<Rightarrow> (Inl e, m)
      | Inr new_task \<Rightarrow>
          (let m1 = m\<lparr>tasks := tasks m @ [new_task]\<rparr>;
               m2 = m1\<lparr>next_id := next_id m1 + 1\<rparr>
           in (Inr new_task, snd (save_to_storage json_dump m2 env))))"

text \<open>
  The loop of \<^verbatim>\<open>get_task_by_id\<close>: the position of the first task with the given id, which
  stands for the object the method returns.
\<close>

fun position_by_id :: "Task list \<Rightarrow> int \<Rightarrow> nat option" where
  "position_by_id [] task_id = None"
| "position_by_id (task # rest) task_id =
     (if tid task = task_id then Some 0 else map_option Suc (position_by_id rest task_id))"

definition get_task_by_id :: "TodoManager \<Rightarrow> int \<Rightarrow> Task option" where
  "get_task_by_id m task_id = map_option (\<lambda>r. tasks m ! r) (position_by_id (tasks m) task_id)"

text \<open>\<^verbatim>\<open>list.index\<close> and \<^verbatim>\<open>list.remove\<close>: the first element equal to the argument; \<open>None\<close> where they raise.\<close>

fun list_index :: "'a list \<Rightarrow> 'a \<Rightarrow> nat option" where
  "list_index [] x = None"
| "list_index (y # ys) x = (if y = x then Some 0 else map_option Suc (list_index ys x))"

definition list_remove :: "'a list \<Rightarrow> 'a \<Rightarrow> 'a list option" where
  "list_remove xs x = (if x \<in> set xs then Some (remove1 x xs) else None)"

text \<open>\<^verbatim>\<open>update_task\<close>; \<open>None\<close> for an argument is Python's \<^verbatim>\<open>None\<close>, the default.\<close>

definition update_task ::
  "(json \<Rightarrow> string) \<Rightarrow> TodoManager \<Rightarrow> int \<Rightarrow> string option \<Rightarrow> string option \<Rightarrow> io \<Rightarrow>
     (error + bool) \<times> TodoManager" where
  "update_task json_dump m task_id ttl descr env =
     (case get_task_by_id m task_id of
        None \<Rightarrow> (Inr False, m)
      | Some task \<Rightarrow>
          (let new_title = (case ttl of Some s \<Rightarrow> s | None \<Rightarrow> title task);
               new_description = (case descr of Some s \<Rightarrow> s | None \<Rightarrow> description task)
           in case Task_init (tid task) new_title new_description (completed task)
                     (created_at task) of
                Inl e \<Rightarrow> (Inl e, m)
              | Inr updated_task \<Rightarrow>
                  (case list_index (tasks m) task of
                     None \<Rightarrow> (Inl ValueError, m)
                   | Some index \<Rightarrow>
                       (let m1 = m\<lparr>tasks := (tasks m)[index := updated_task]\<rparr>
                        in (Inr True, snd (save_to_storage json_dump m1 env))))))"

text \<open>
  The body of \<^verbatim>\<open>update_task\<close> again, with the constructor it calls as the parameter
  \<open>construct\<close>: what the method does itself, whatever the constructor of the module
  \<^verbatim>\<open>models\<close> accepts. \<open>update_task\<close> is the instance at \<open>Task_init\<close>.
\<close>

definition update_task_with ::
  "(int \<Rightarrow> string \<Rightarrow> string \<Rightarrow> bool \<Rightarrow> datetime \<Rightarrow> error + Task) \<Rightarrow>
   (json \<Rightarrow> string) \<Rightarrow> TodoManager \<Rightarrow> int \<Rightarrow> string option \<Rightarrow> string option \<Rightarrow> io \<Rightarrow>
     (error + bool) \<times> TodoManager" where
  "update_task_with construct json_dump m task_id ttl descr env =
     (case get_task_by_id m task_id of
        None \<Rightarrow> (Inr False, m)
      | Some task \<Rightarrow>
          (let new_title = (case ttl of Some s \<Rightarrow> s | None \<Rightarrow> title task);
               new_description = (case descr of Some s \<Rightarrow> s | None \<Rightarrow> description task)
           in case construct (tid task) new_title new_description (completed task)
                     (created_at task) of
                Inl e \<Rightarrow> (Inl e, m)
              | Inr updated_task \<Rightarrow>
                  (case list_index (tasks m) task of
                     None \<Rightarrow> (Inl ValueError, m)
                   | Some index \<Rightarrow>
                       (let m1 = m\<lparr>tasks := (tasks m)[index := updated_task]\<rparr>
                        in (Inr True, snd (save_to_storage json_dump m1 env))))))"

definition delete_task ::
  "(json \<Rightarrow> string) \<Rightarrow> TodoManager \<Rightarrow> int \<Rightarrow> io \<Rightarrow> (error + bool) \<times> TodoManager" where
  "delete_task json_dump m task_id env =
     (case get_task_by_id m task_id of
        None \<Rightarrow> (Inr False, m)
      | Some task \<Rightarrow>
          (case list_remove (tasks m) task of
             None \<Rightarrow> (Inl ValueError, m)
           | Some rest \<Rightarrow>
               (let m1 = m\<lparr>tasks := rest\<rparr>
                in (Inr True, snd (save_to_storage json_dump m1 env)))))"

text \<open>\<^verbatim>\<open>toggle_complete\<close>: the assignment changes the object found, where it is in the list.\<close>

definition toggle_complete ::
  "(json \<Rightarrow> string) \<Rightarrow> TodoManager \<Rightarrow> int \<Rightarrow> io \<Rightarrow> (error + bool) \<times> TodoManager" where
  "toggle_complete json_dump m task_id env =
     (case position_by_id (tasks m) task_id of
        None \<Rightarrow> (Inr False, m)
      | Some r \<Rightarrow>
          (let task = tasks m ! r;
               m1 = m\<lparr>tasks := (tasks m)[r := task\<lparr>completed := \<not> completed task\<rparr>]\<rparr>
           in (Inr True, snd (save_to_storage json_dump m1 env))))"

text \<open>\<^verbatim>\<open>get_stats\<close>; the dictionary it returns is the list of its items.\<close>

definition get_stats :: "TodoManager \<Rightarrow> (error + (string \<times> int) list) \<times> TodoManager" where
  "get_stats m =
     (let total = int (length (tasks m));
          completed_count = sum_list (map (\<lambda>task. 1) (filter completed (tasks m)));
          pending = total - completed_count
      in (Inr [(''total'', total), (''completed'', completed_count), (''pending'', pending)], m))"

section \<open>Sequences of calls\<close>

text \<open>
  One call of a method that changes the manager, as the menu loop of \<^verbatim>\<open>main.py\<close> issues
  them, and a run of such calls. \<open>perform\<close> returns the task a successful \<^verbatim>\<open>add_task\<close>
  created, and the manager after the call; an exception leaves the manager as the method
  left it, and the loop goes on.
\<close>

datatype call =
    Add string string datetime
  | Update int "string option" "string option"
  | Delete int
  | Toggle int

fun perform :: "(json \<Rightarrow> string) \<Rightarrow> TodoManager \<Rightarrow> call \<Rightarrow> io \<Rightarrow> Task list \<times> TodoManager" where
  "perform json_dump m (Add ttl descr now) env =
     (case add_task json_dump m ttl descr now env of
        (Inl e, m1) \<Rightarrow> ([], m1)
      | (Inr new_task, m1) \<Rightarrow> ([new_task], m1))"
| "perform json_dump m (Update task_id ttl descr) env =
     ([], snd (update_task json_dump m task_id ttl descr env))"
| "perform json_dump m (Delete task_id) env = ([], snd (delete_task json_dump m task_id env))"
| "perform json_dump m (Toggle task_id) env = ([], snd (toggle_complete json_dump m task_id env))"

fun run :: "(json \<Rightarrow> string) \<Rightarrow> TodoManager \<Rightarrow> (call \<times> io) list \<Rightarrow> Task list \<times> TodoManager" where
  "run json_dump m [] = ([], m)"
| "run json_dump m ((c, env) # rest) =
     (case perform json_dump m c env of
        (new, m1) \<Rightarrow> (case run json_dump m1 rest of (later, m2) \<Rightarrow> (new @ later, m2)))"

text \<open>
  Values for the examples: a clock reading, a serializer, the manager of a first run, a task
  and a manager that holds it, a parser, and the run of section 8 of the specification.
\<close>

definition example_now :: datetime where
  "example_now =
     \<lparr>year = 2025, month = 3, day = 14, hour = 9, minute = 26, second = 53, microsecond = 589\<rparr>"

definition example_dump :: "json \<Rightarrow> string" where
  "example_dump data = (case data of JObj kvs \<Rightarrow> ''{..}'' | _ \<Rightarrow> ''?'')"

definition new_manager :: TodoManager where
  "new_manager =
     \<lparr>storage = \<lparr>target_file = None, backup_file = None\<rparr>, tasks = [], next_id = 1\<rparr>"

definition example_task :: Task where
  "example_task =
     \<lparr>tid = 1, title = ''Buy milk'', description = [], completed = False,
      created_at = example_now\<rparr>"

definition example_manager :: TodoManager where
  "example_manager = new_manager\<lparr>tasks := [example_task], next_id := 2\<rparr>"


definition example_calls :: "(call \<times> io) list" where
  "example_calls =
     [(Add ''A'' [] example_now, IoOk), (Add ''B'' [] example_now, IoOk),
      (Delete 1, IoOk), (Add ''C'' [] example_now, IoOk)]"

section \<open>Auxiliary facts\<close>

subsection \<open>Strings and timestamps\<close>

lemma strip_Nil_iff: "strip s = [] \<longleftrightarrow> (\<forall>c\<in>set s. isspace c)"
proof -
  have "dropWhile isspace s = []" if "\<forall>x\<in>set (dropWhile isspace s). isspace x"
  proof (rule ccontr)
    assume ne: "dropWhile isspace s \<noteq> []"
    then have "\<not> isspace (hd (dropWhile isspace s))" by (rule hd_dropWhile)
    with ne that show False by simp
  qed
  moreover have "\<forall>x\<in>set (dropWhile isspace s). isspace x" if "dropWhile isspace s = []"
    unfolding that by simp
  ultimately have "(\<forall>x\<in>set (dropWhile isspace s). isspace x) \<longleftrightarrow> dropWhile isspace s = []"
    by blast
  then show ?thesis by (simp add: strip_def dropWhile_eq_Nil_conv)
qed

lemma Task_init_Inl:
  "strip ttl = [] \<or> length ttl > 200 \<or> length descr > 1000 \<Longrightarrow>
     \<exists>c. violates c ttl descr \<and> Task_init i ttl descr b at = Inl (ValidationError c)"
  by (auto simp: Task_init_def)

lemma Task_init_Inr:
  "strip ttl \<noteq> [] \<Longrightarrow> length ttl \<le> 200 \<Longrightarrow> length descr \<le> 1000 \<Longrightarrow>
     Task_init i ttl descr b at =
       Inr \<lparr>tid = i, title = ttl, description = descr, completed = b, created_at = at\<rparr>"
  by (simp add: Task_init_def)

lemma dropWhile_replicate: "\<not> P c \<Longrightarrow> dropWhile P (replicate n c) = replicate n c"
  by (cases n) simp_all
lemma strip_replicate: "\<not> isspace c \<Longrightarrow> strip (replicate n c) = replicate n c"
  by (simp add: strip_def dropWhile_replicate)

lemma of_char_digit_char: "d < 10 \<Longrightarrow> (of_char (digit_char d) :: nat) = 48 + d"
  by (simp add: digit_char_def)

lemma is_digit_digit_char: "d < 10 \<Longrightarrow> is_digit (digit_char d)"
  by (simp add: is_digit_def of_char_digit_char)

lemma digit_val_digit_char: "d < 10 \<Longrightarrow> digit_val (digit_char d) = d"
  by (simp add: digit_val_def of_char_digit_char)

lemma read_digits_zpad:
  "read_digits n acc (zpad n k @ rest) = Some (acc * 10 ^ n + k mod 10 ^ n, rest)"
proof (induction n arbitrary: acc)
  case 0
  then show ?case by simp
next
  case (Suc n)
  have "k mod (10 ^ n * 10) = 10 ^ n * (k div 10 ^ n mod 10) + k mod 10 ^ n"
    by (rule mod_mult2_eq)
  then have split: "k mod 10 ^ Suc n = 10 ^ n * (k div 10 ^ n mod 10) + k mod 10 ^ n"
    by (simp only: power_Suc mult.commute)
  have "read_digits (Suc n) acc (zpad (Suc n) k @ rest) =
          read_digits n (10 * acc + k div 10 ^ n mod 10) (zpad n k @ rest)"
    by (simp add: is_digit_digit_char digit_val_digit_char)
  also have "\<dots> = Some ((10 * acc + k div 10 ^ n mod 10) * 10 ^ n + k mod 10 ^ n, rest)"
    by (rule Suc.IH)
  also have "(10 * acc + k div 10 ^ n mod 10) * 10 ^ n + k mod 10 ^ n =
               acc * 10 ^ Suc n + k mod 10 ^ Suc n"
    unfolding split by (simp add: algebra_simps)
  finally show ?case .
qed

lemma read_digits_zpad_end:
  "read_digits n acc (zpad n k) = Some (acc * 10 ^ n + k mod 10 ^ n, [])"
  using read_digits_zpad [of n acc k "[]"] by simp

lemma zpad_not_Nil: "zpad (Suc n) k \<noteq> []"
  by simp

lemma parse_iso_isoformat:
  assumes "valid_datetime d"
  shows "parse_iso (isoformat d) = Some d"
proof -
  from assms have b: "year d < 10 ^ 4" "month d < 10 ^ 2" "day d < 10 ^ 2" "hour d < 10 ^ 2"
    "minute d < 10 ^ 2" "second d < 10 ^ 2" "microsecond d < 10 ^ 6"
    by (simp_all add: valid_datetime_def days_in_month_def split: if_splits)
  show ?thesis
  proof (cases "microsecond d = 0")
    case True
    then show ?thesis
      using b unfolding parse_iso_def isoformat_def
      by (simp add: read_digits_zpad read_digits_zpad_end del: zpad.simps)
  next
    case False
    then show ?thesis
      using b unfolding parse_iso_def isoformat_def
      by (simp add: read_digits_zpad read_digits_zpad_end del: zpad.simps)
  qed
qed

lemma fromisoformat_isoformat: "valid_datetime d \<Longrightarrow> fromisoformat (isoformat d) = Inr d"
  by (simp add: fromisoformat_def parse_iso_isoformat)


subsection \<open>The manager's methods\<close>

lemma tasks_save_to_storage: "tasks (snd (save_to_storage d m env)) = tasks m"
  by (simp add: save_to_storage_def split: prod.splits)

lemma next_id_save_to_storage: "next_id (snd (save_to_storage d m env)) = next_id m"
  by (simp add: save_to_storage_def split: prod.splits)

lemma position_by_id_None: "position_by_id ts i = None \<longleftrightarrow> i \<notin> tid ` set ts"
  by (induction ts) auto

lemma position_by_id_Some:
  "position_by_id ts i = Some r \<Longrightarrow> r < length ts \<and> tid (ts ! r) = i \<and> (\<forall>j<r. tid (ts ! j) \<noteq> i)"
proof (induction ts arbitrary: r)
  case Nil
  then show ?case by simp
next
  case (Cons t ts)
  show ?case
  proof (cases "tid t = i")
    case True
    with Cons.prems show ?thesis by simp
  next
    case False
    with Cons.prems obtain r' where r': "position_by_id ts i = Some r'" "r = Suc r'"
      by auto
    from Cons.IH [OF r'(1)] False r'(2) show ?thesis
      by (auto simp: nth_Cons split: nat.splits)
  qed
qed

lemma list_index_position:
  "position_by_id ts i = Some r \<Longrightarrow> list_index ts (ts ! r) = Some r"
proof (induction ts arbitrary: r)
  case Nil
  then show ?case by simp
next
  case (Cons t ts)
  show ?case
  proof (cases "tid t = i")
    case True
    with Cons.prems show ?thesis by simp
  next
    case False
    with Cons.prems obtain r' where r': "position_by_id ts i = Some r'" "r = Suc r'"
      by auto
    from position_by_id_Some [OF r'(1)] False have "t \<noteq> ts ! r'" by auto
    with Cons.IH [OF r'(1)] r'(2) show ?thesis by simp
  qed
qed

lemma remove1_position:
  "position_by_id ts i = Some r \<Longrightarrow> remove1 (ts ! r) ts = take r ts @ drop (Suc r) ts"
proof (induction ts arbitrary: r)
  case Nil
  then show ?case by simp
next
  case (Cons t ts)
  show ?case
  proof (cases "tid t = i")
    case True
    with Cons.prems show ?thesis by simp
  next
    case False
    with Cons.prems obtain r' where r': "position_by_id ts i = Some r'" "r = Suc r'"
      by auto
    from position_by_id_Some [OF r'(1)] False have "t \<noteq> ts ! r'" by auto
    with Cons.IH [OF r'(1)] r'(2) show ?thesis by simp
  qed
qed

lemma get_task_by_id_None: "get_task_by_id m i = None \<longleftrightarrow> i \<notin> tid ` set (tasks m)"
  by (simp add: get_task_by_id_def position_by_id_None)

lemma add_task_Inr:
  "add_task d m ttl descr now env = (Inr t, m') \<Longrightarrow>
     t = \<lparr>tid = next_id m, title = ttl, description = descr, completed = False, created_at = now\<rparr>
     \<and> tasks m' = tasks m @ [t] \<and> next_id m' = next_id m + 1"
  by (auto simp: add_task_def Task_init_def Let_def tasks_save_to_storage next_id_save_to_storage
      split: if_splits)

lemma add_task_Inl: "add_task d m ttl descr now env = (Inl e, m') \<Longrightarrow> m' = m"
  by (auto simp: add_task_def Let_def split: sum.splits)

lemma update_task_absent:
  "position_by_id (tasks m) i = None \<Longrightarrow> update_task d m i a b env = (Inr False, m)"
  by (simp add: update_task_def get_task_by_id_def)

lemma update_task_rejected:
  "position_by_id (tasks m) i = Some r \<Longrightarrow>
   Task_init (tid (tasks m ! r)) (case a of Some s \<Rightarrow> s | None \<Rightarrow> title (tasks m ! r))
     (case b of Some s \<Rightarrow> s | None \<Rightarrow> description (tasks m ! r))
     (completed (tasks m ! r)) (created_at (tasks m ! r)) = Inl e \<Longrightarrow>
   update_task d m i a b env = (Inl e, m)"
  by (simp add: update_task_def get_task_by_id_def Let_def)

lemma update_task_replaced:
  "position_by_id (tasks m) i = Some r \<Longrightarrow>
   Task_init (tid (tasks m ! r)) (case a of Some s \<Rightarrow> s | None \<Rightarrow> title (tasks m ! r))
     (case b of Some s \<Rightarrow> s | None \<Rightarrow> description (tasks m ! r))
     (completed (tasks m ! r)) (created_at (tasks m ! r)) = Inr u \<Longrightarrow>
   update_task d m i a b env =
     (Inr True, snd (save_to_storage d (m\<lparr>tasks := (tasks m)[r := u]\<rparr>) env))"
  by (simp add: update_task_def get_task_by_id_def Let_def list_index_position)

lemma update_task_with_Task_init:
  "update_task_with Task_init json_dump m task_id ttl descr env =
     update_task json_dump m task_id ttl descr env"
  by (simp add: update_task_with_def update_task_def)


lemma delete_task_absent:
  "position_by_id (tasks m) i = None \<Longrightarrow> delete_task d m i env = (Inr False, m)"
  by (simp add: delete_task_def get_task_by_id_def)

lemma delete_task_present:
  "position_by_id (tasks m) i = Some r \<Longrightarrow>
   delete_task d m i env =
     (Inr True, snd (save_to_storage d (m\<lparr>tasks := take r (tasks m) @ drop (Suc r) (tasks m)\<rparr>) env))"
  using position_by_id_Some [of "tasks m" i r]
  by (simp add: delete_task_def get_task_by_id_def list_remove_def remove1_position)

lemma toggle_complete_absent:
  "position_by_id (tasks m) i = None \<Longrightarrow> toggle_complete d m i env = (Inr False, m)"
  by (simp add: toggle_complete_def)

lemma toggle_complete_present:
  "position_by_id (tasks m) i = Some r \<Longrightarrow>
   toggle_complete d m i env =
     (Inr True, snd (save_to_storage d
        (m\<lparr>tasks := (tasks m)[r := (tasks m ! r)\<lparr>completed := \<not> completed (tasks m ! r)\<rparr>]\<rparr>) env))"
  by (simp add: toggle_complete_def Let_def)

lemma position_by_id_map_tid:
  "map tid ts = map tid ts' \<Longrightarrow> position_by_id ts i = position_by_id ts' i"
proof (induction ts arbitrary: ts')
  case Nil
  then show ?case by simp
next
  case (Cons t ts)
  then obtain t' us where "ts' = t' # us" "tid t = tid t'" "map tid ts = map tid us"
    by (cases ts') auto
  with Cons.IH [of us] show ?case by simp
qed

lemma map_tid_update:
  "r < length ts \<Longrightarrow> tid u = tid (ts ! r) \<Longrightarrow> map tid (ts[r := u]) = map tid ts"
  by (simp add: map_update list_update_same_conv)

lemma sum_list_ones: "sum_list (map (\<lambda>x. 1) xs) = int (length xs)"
  by (induction xs) simp_all

subsection \<open>Runs of calls\<close>

text \<open>
  One call changes the task list in one of four ways, and keeps the ids in the list distinct
  and below the counter.
\<close>

lemma perform_step:
  assumes "perform d m c env = (new, m1)"
  shows "(new = [] \<and> next_id m1 = next_id m \<and>
            (tasks m1 = tasks m
             \<or> (\<exists>r u. r < length (tasks m) \<and> tid u = tid (tasks m ! r) \<and>
                       created_at u = created_at (tasks m ! r) \<and> tasks m1 = (tasks m)[r := u])
             \<or> (\<exists>r. r < length (tasks m) \<and> tasks m1 = take r (tasks m) @ drop (Suc r) (tasks m))))
         \<or> (\<exists>t. new = [t] \<and> tid t = next_id m \<and> next_id m1 = next_id m + 1 \<and>
                 tasks m1 = tasks m @ [t])"
proof (cases c)
  case (Add ttl descr now)
  obtain res ma where eq: "add_task d m ttl descr now env = (res, ma)"
    by (cases "add_task d m ttl descr now env")
  show ?thesis
  proof (cases res)
    case (Inl e)
    with add_task_Inl [of d m ttl descr now env e ma] eq assms Add show ?thesis by simp
  next
    case (Inr t)
    with add_task_Inr [of d m ttl descr now env t ma] eq assms Add show ?thesis by auto
  qed
next
  case (Update i a b)
  show ?thesis
  proof (cases "position_by_id (tasks m) i")
    case None
    with assms Update show ?thesis by (simp add: update_task_absent)
  next
    case (Some r)
    note bounds = position_by_id_Some [OF Some]
    let ?t = "tasks m ! r"
    show ?thesis
    proof (cases "Task_init (tid ?t) (case a of Some s \<Rightarrow> s | None \<Rightarrow> title ?t)
        (case b of Some s \<Rightarrow> s | None \<Rightarrow> description ?t) (completed ?t) (created_at ?t)")
      case (Inl e)
      from update_task_rejected [OF Some Inl] assms Update show ?thesis by simp
    next
      case (Inr u)
      then have "tid u = tid ?t" "created_at u = created_at ?t"
        by (auto simp: Task_init_def split: if_splits)
      moreover from update_task_replaced [OF Some Inr, of d env] assms Update
      have "new = []" "next_id m1 = next_id m" "tasks m1 = (tasks m)[r := u]"
        by (auto simp: tasks_save_to_storage next_id_save_to_storage)
      ultimately show ?thesis using bounds by blast
    qed
  qed
next
  case (Delete i)
  show ?thesis
  proof (cases "position_by_id (tasks m) i")
    case None
    with assms Delete show ?thesis by (simp add: delete_task_absent)
  next
    case (Some r)
    note bounds = position_by_id_Some [OF Some]
    from delete_task_present [OF Some, of d env] assms Delete
    have "new = []" "next_id m1 = next_id m" "tasks m1 = take r (tasks m) @ drop (Suc r) (tasks m)"
      by (auto simp: tasks_save_to_storage next_id_save_to_storage)
    then show ?thesis using bounds by blast
  qed
next
  case (Toggle i)
  show ?thesis
  proof (cases "position_by_id (tasks m) i")
    case None
    with assms Toggle show ?thesis by (simp add: toggle_complete_absent)
  next
    case (Some r)
    note bounds = position_by_id_Some [OF Some]
    let ?u = "(tasks m ! r)\<lparr>completed := \<not> completed (tasks m ! r)\<rparr>"
    from toggle_complete_present [OF Some, of d env] assms Toggle
    have "new = []" "next_id m1 = next_id m" "tasks m1 = (tasks m)[r := ?u]"
      by (auto simp: tasks_save_to_storage next_id_save_to_storage)
    moreover have "tid ?u = tid (tasks m ! r)" "created_at ?u = created_at (tasks m ! r)"
      by simp_all
    ultimately show ?thesis using bounds by blast
  qed
qed

lemma distinct_remove_nth:
  assumes "distinct ys"
  shows "distinct (take r ys @ drop (Suc r) ys)"
proof -
  from assms have "distinct (take r ys @ drop r ys)" by simp
  then have "set (take r ys) \<inter> set (drop r ys) = {}"
    by (simp only: distinct_append)
  moreover have "set (drop (Suc r) ys) \<subseteq> set (drop r ys)"
    by (rule set_drop_subset_set_drop) simp
  ultimately have "set (take r ys) \<inter> set (drop (Suc r) ys) = {}" by blast
  with assms show ?thesis by simp
qed

lemma set_remove_nth: "set (take r xs @ drop (Suc r) xs) \<subseteq> set xs"
  using set_take_subset [of r xs] set_drop_subset [of "Suc r" xs] by auto

lemma perform_invariant:
  assumes "perform d m c env = (new, m1)"
    and "\<forall>t\<in>set (tasks m). tid t < next_id m" and "distinct (map tid (tasks m))"
  shows "(\<forall>t\<in>set (tasks m1). tid t < next_id m1) \<and> distinct (map tid (tasks m1))
       \<and> (\<forall>t\<in>set (tasks m1).
             (\<exists>s\<in>set (tasks m). tid s = tid t \<and> created_at s = created_at t) \<or> t \<in> set new)"
proof -
  from perform_step [OF assms(1)] consider
      (same) "new = []" "next_id m1 = next_id m" "tasks m1 = tasks m"
    | (upd) r u where "new = []" "next_id m1 = next_id m" "r < length (tasks m)"
        "tid u = tid (tasks m ! r)" "created_at u = created_at (tasks m ! r)"
        "tasks m1 = (tasks m)[r := u]"
    | (del) r where "new = []" "next_id m1 = next_id m" "r < length (tasks m)"
        "tasks m1 = take r (tasks m) @ drop (Suc r) (tasks m)"
    | (add) t where "new = [t]" "tid t = next_id m" "next_id m1 = next_id m + 1"
        "tasks m1 = tasks m @ [t]"
    by blast
  then show ?thesis
  proof cases
    case same
    with assms(2,3) show ?thesis by auto
  next
    case upd
    have ids: "map tid (tasks m1) = map tid (tasks m)"
      unfolding upd(6) using upd(3,4) by (rule map_tid_update)
    have mem: "t = u \<or> t \<in> set (tasks m)" if "t \<in> set (tasks m1)" for t
      using that set_update_subset_insert [of "tasks m" r u] unfolding upd(6) by auto
    have old: "tasks m ! r \<in> set (tasks m)" using upd(3) by simp
    have 1: "\<forall>t\<in>set (tasks m1). tid t < next_id m1"
      using mem assms(2) old upd(2,4) by (metis)
    have 3: "\<forall>t\<in>set (tasks m1).
             (\<exists>s\<in>set (tasks m). tid s = tid t \<and> created_at s = created_at t) \<or> t \<in> set new"
      using mem old upd(4,5) by metis
    from 1 3 ids assms(3) show ?thesis by simp
  next
    case del
    have sub: "set (tasks m1) \<subseteq> set (tasks m)"
      unfolding del(4) by (rule set_remove_nth)
    have "map tid (tasks m1) = take r (map tid (tasks m)) @ drop (Suc r) (map tid (tasks m))"
      unfolding del(4) by (simp add: take_map drop_map)
    with assms(3) have "distinct (map tid (tasks m1))"
      by (simp only: distinct_remove_nth)
    with sub assms(2) del(2) show ?thesis by auto
  next
    case add
    with assms(2,3) show ?thesis by (auto simp: less_le_not_le)
  qed
qed

lemma run_counter:
  "run d m cs = (added, m') \<Longrightarrow>
     next_id m' = next_id m + int (length added)
     \<and> map tid added = map (\<lambda>k. next_id m + int k) [0..<length added]"
proof (induction cs arbitrary: m added)
  case Nil
  then show ?case by simp
next
  case (Cons x cs)
  obtain c env where x: "x = (c, env)" by (cases x)
  obtain new m1 where p: "perform d m c env = (new, m1)" by (cases "perform d m c env")
  obtain later m2 where r: "run d m1 cs = (later, m2)" by (cases "run d m1 cs")
  from Cons.prems x p r have res: "added = new @ later" "m' = m2" by simp_all
  from r res(2) have r': "run d m1 cs = (later, m')" by simp
  note ih = Cons.IH [OF r']
  from perform_step [OF p] consider
      (none) "new = []" "next_id m1 = next_id m"
    | (one) t where "new = [t]" "tid t = next_id m" "next_id m1 = next_id m + 1"
    by blast
  then show ?case
  proof cases
    case none
    with ih res show ?thesis by simp
  next
    case one
    have "map (\<lambda>k. next_id m + int k) [0..<Suc (length later)] =
            next_id m # map (\<lambda>k. next_id m + 1 + int k) [0..<length later]"
      by (simp add: upt_rec [of 0] map_Suc_upt [symmetric] del: upt_Suc)
    with ih res one show ?thesis by simp
  qed
qed

lemma run_invariant:
  "run d m cs = (added, m') \<Longrightarrow>
   \<forall>t\<in>set (tasks m). tid t < next_id m \<Longrightarrow> distinct (map tid (tasks m)) \<Longrightarrow>
     (\<forall>t\<in>set (tasks m'). tid t < next_id m') \<and> distinct (map tid (tasks m'))
     \<and> (\<forall>t\<in>set (tasks m').
           (\<exists>s\<in>set (tasks m). tid s = tid t \<and> created_at s = created_at t)
           \<or> (\<exists>a\<in>set added. tid a = tid t \<and> created_at a = created_at t))"
proof (induction cs arbitrary: m added)
  case Nil
  then show ?case by auto
next
  case (Cons x cs)
  obtain c env where x: "x = (c, env)" by (cases x)
  obtain new m1 where p: "perform d m c env = (new, m1)" by (cases "perform d m c env")
  obtain later m2 where r: "run d m1 cs = (later, m2)" by (cases "run d m1 cs")
  from Cons.prems(1) x p r have res: "added = new @ later" "m' = m2" by simp_all
  from perform_invariant [OF p Cons.prems(2,3)]
  have inv1: "\<forall>t\<in>set (tasks m1). tid t < next_id m1" "distinct (map tid (tasks m1))"
    and org1: "\<forall>t\<in>set (tasks m1).
             (\<exists>s\<in>set (tasks m). tid s = tid t \<and> created_at s = created_at t) \<or> t \<in> set new"
    by simp_all
  from r res(2) have r': "run d m1 cs = (later, m')" by simp
  from Cons.IH [OF r' inv1] res(2)
  have inv2: "\<forall>t\<in>set (tasks m2). tid t < next_id m2" "distinct (map tid (tasks m2))"
    and org2: "\<forall>t\<in>set (tasks m2).
           (\<exists>s\<in>set (tasks m1). tid s = tid t \<and> created_at s = created_at t)
           \<or> (\<exists>a\<in>set later. tid a = tid t \<and> created_at a = created_at t)"
    by simp_all
  have "(\<exists>s\<in>set (tasks m). tid s = tid t \<and> created_at s = created_at t)
           \<or> (\<exists>a\<in>set (new @ later). tid a = tid t \<and> created_at a = created_at t)"
    if "t \<in> set (tasks m2)" for t
  proof -
    from org2 that consider
        s where "s \<in> set (tasks m1)" "tid s = tid t" "created_at s = created_at t"
      | a where "a \<in> set later" "tid a = tid t" "created_at a = created_at t"
      by blast
    then show ?thesis
    proof cases
      case 1
      with org1 show ?thesis by (fastforce simp: )
    next
      case 2
      then show ?thesis by auto
    qed
  qed
  with inv2 res show ?case by simp
qed

section \<open>Validation on \<^verbatim>\<open>add_task\<close>\<close>

text \<open>
  Claim C1. A call \<^verbatim>\<open>add_task(title, description)\<close> whose title is empty after trimming, or
  longer than 200 characters, or whose description is longer than 1000 characters, raises a
  validation error that names a constraint the arguments violate, and the manager after the
  call is the manager before it: the task list, the counter and the files are unchanged. Any
  other call is accepted, so a title of 200 characters and a description of 1000
  characters pass; a title of 201 characters, a title of white space only and a description
  of 1001 characters are rejected.
\<close>

theorem add_task_validation:
  "(strip ttl = [] \<or> length ttl > 200 \<or> length descr > 1000 \<longrightarrow>
      (\<exists>c. violates c ttl descr \<and>
           add_task json_dump m ttl descr now env = (Inl (ValidationError c), m)))
   \<and> (strip ttl \<noteq> [] \<and> length ttl \<le> 200 \<and> length descr \<le> 1000 \<longrightarrow>
        (\<exists>t. fst (add_task json_dump m ttl descr now env) = Inr t))
   \<and> (length ttl = 201 \<longrightarrow>
        (\<exists>c. add_task json_dump m ttl descr now env = (Inl (ValidationError c), m)))
   \<and> ((\<forall>c\<in>set ttl. isspace c) \<longrightarrow>
        add_task json_dump m ttl descr now env = (Inl (ValidationError TitleEmpty), m))
   \<and> (length descr = 1001 \<longrightarrow>
        (\<exists>c. add_task json_dump m ttl descr now env = (Inl (ValidationError c), m)))"
proof -
  have rej: "\<exists>c. violates c ttl descr \<and>
           add_task json_dump m ttl descr now env = (Inl (ValidationError c), m)"
    if "strip ttl = [] \<or> length ttl > 200 \<or> length descr > 1000"
    using Task_init_Inl [OF that, of "next_id m" False now]
    by (auto simp: add_task_def)
  have acc: "\<exists>t. fst (add_task json_dump m ttl descr now env) = Inr t"
    if "strip ttl \<noteq> []" "length ttl \<le> 200" "length descr \<le> 1000"
    using that by (simp add: add_task_def Task_init_Inr Let_def)
  have blank: "add_task json_dump m ttl descr now env = (Inl (ValidationError TitleEmpty), m)"
    if "\<forall>c\<in>set ttl. isspace c"
    using that by (simp add: add_task_def Task_init_def strip_Nil_iff)
  show ?thesis
    using rej acc blank by auto
qed

text \<open>The boundary cases on a manager of a first run.\<close>

theorem add_task_validation_witness:
  "(\<exists>c. violates c (replicate 201 CHR ''x'') [] \<and>
        add_task example_dump new_manager (replicate 201 CHR ''x'') [] example_now IoOk =
          (Inl (ValidationError c), new_manager))
   \<and> (\<exists>t. fst (add_task example_dump new_manager (replicate 200 CHR ''x'')
                 (replicate 1000 CHR ''y'') example_now IoOk) = Inr t)
   \<and> add_task example_dump new_manager '' '' [] example_now IoOk =
        (Inl (ValidationError TitleEmpty), new_manager)
   \<and> (\<exists>c. add_task example_dump new_manager ''x'' (replicate 1001 CHR ''y'') example_now IoOk =
          (Inl (ValidationError c), new_manager))"
proof -
  have x: "\<not> isspace CHR ''x''" and sp: "isspace CHR '' ''"
    by (simp_all add: isspace_def)
  note long = add_task_validation [where ttl = "replicate 201 CHR ''x''" and descr = "[]"
      and json_dump = example_dump and m = new_manager and now = example_now and env = IoOk]
  note edge = add_task_validation [where ttl = "replicate 200 CHR ''x''"
      and descr = "replicate 1000 CHR ''y''"
      and json_dump = example_dump and m = new_manager and now = example_now and env = IoOk]
  note blank = add_task_validation [where ttl = "'' ''" and descr = "[]"
      and json_dump = example_dump and m = new_manager and now = example_now and env = IoOk]
  note desc = add_task_validation [where ttl = "''x''" and descr = "replicate 1001 CHR ''y''"
      and json_dump = example_dump and m = new_manager and now = example_now and env = IoOk]
  have 1: "\<exists>c. violates c (replicate 201 CHR ''x'') [] \<and>
        add_task example_dump new_manager (replicate 201 CHR ''x'') [] example_now IoOk =
          (Inl (ValidationError c), new_manager)"
    using long by simp
  have 2: "\<exists>t. fst (add_task example_dump new_manager (replicate 200 CHR ''x'')
                 (replicate 1000 CHR ''y'') example_now IoOk) = Inr t"
    using edge x by (simp add: strip_replicate)
  have 3: "add_task example_dump new_manager '' '' [] example_now IoOk =
        (Inl (ValidationError TitleEmpty), new_manager)"
    using blank sp by simp
  have 4: "\<exists>c. add_task example_dump new_manager ''x'' (replicate 1001 CHR ''y'') example_now IoOk =
          (Inl (ValidationError c), new_manager)"
    using desc by simp
  from 1 2 3 4 show ?thesis by blast
qed

section \<open>The id counter\<close>

text \<open>
  Claim C2. Start from the empty state, with the counter at 1, and run any calls of
  \<^verbatim>\<open>add_task\<close>, \<^verbatim>\<open>update_task\<close>, \<^verbatim>\<open>delete_task\<close> and \<^verbatim>\<open>toggle_complete\<close>, in any order. If
  \<open>N\<close> of the \<^verbatim>\<open>add_task\<close> calls succeeded, the counter is \<open>N + 1\<close> and the tasks they
  created have the ids \<open>1, \<dots>, N\<close> in this order. The ids in the list are distinct, every
  task in the list has the id and the creation time one of the added tasks was given, and
  the next successful \<^verbatim>\<open>add_task\<close> gives its task the counter as id, adds 1 to the counter,
  appends the task, and uses an id that no task has now and no added task ever had, deleted
  or not.
\<close>

theorem id_counter_monotone:
  assumes "tasks m0 = []" and "next_id m0 = 1" and "run json_dump m0 cs = (added, m)"
  shows "next_id m = int (length added) + 1
       \<and> map tid added = map int [1..<length added + 1]
       \<and> distinct (map tid (tasks m))
       \<and> (\<forall>t\<in>set (tasks m). \<exists>a\<in>set added. tid a = tid t \<and> created_at a = created_at t)
       \<and> (\<forall>ttl descr now env t m'.
             add_task json_dump m ttl descr now env = (Inr t, m') \<longrightarrow>
               tid t = next_id m \<and> next_id m' = next_id m + 1 \<and> tasks m' = tasks m @ [t]
               \<and> tid t \<notin> tid ` set added \<and> tid t \<notin> tid ` set (tasks m))"
proof -
  from run_counter [OF assms(3)] assms(2)
  have n: "next_id m = int (length added) + 1"
    and ids0: "map tid added = map (\<lambda>k. 1 + int k) [0..<length added]"
    by simp_all
  have "map (\<lambda>k. 1 + int k) [0..<length added] = map int (map Suc [0..<length added])"
    by simp
  also have "\<dots> = map int [1..<length added + 1]"
    by (simp only: map_Suc_upt) simp
  finally have ids: "map tid added = map int [1..<length added + 1]"
    using ids0 by simp
  from run_invariant [OF assms(3)] assms(1)
  have below: "\<forall>t\<in>set (tasks m). tid t < next_id m"
    and dist: "distinct (map tid (tasks m))"
    and org: "\<forall>t\<in>set (tasks m). \<exists>a\<in>set added. tid a = tid t \<and> created_at a = created_at t"
    by simp_all
  have fresh1: "next_id m \<notin> tid ` set added"
  proof
    assume "next_id m \<in> tid ` set added"
    then have "next_id m \<in> set (map tid added)" by simp
    then have "next_id m \<in> set (map int [1..<length added + 1])" by (simp only: ids)
    with n show False by auto
  qed
  have fresh2: "next_id m \<notin> tid ` set (tasks m)"
    using below by auto
  have step: "tid t = next_id m \<and> next_id m' = next_id m + 1 \<and> tasks m' = tasks m @ [t]
               \<and> tid t \<notin> tid ` set added \<and> tid t \<notin> tid ` set (tasks m)"
    if "add_task json_dump m ttl descr now env = (Inr t, m')" for ttl descr now env t m'
    using add_task_Inr [OF that] fresh1 fresh2 by simp
  from n ids dist org step show ?thesis by blast
qed

text \<open>
  The run \<^verbatim>\<open>add("A")\<close>, \<^verbatim>\<open>add("B")\<close>, \<^verbatim>\<open>delete(1)\<close>, \<^verbatim>\<open>add("C")\<close> from a first run: three
  tasks added, the ids 2 and 3 present, the counter at 4.
\<close>

theorem id_counter_monotone_witness:
  "tasks new_manager = [] \<and> next_id new_manager = 1
   \<and> length (fst (run example_dump new_manager example_calls)) = 3
   \<and> next_id (snd (run example_dump new_manager example_calls)) = 4
   \<and> map tid (tasks (snd (run example_dump new_manager example_calls))) = [2, 3]"
proof -
  have a: "tasks new_manager = []" and b: "next_id new_manager = 1"
    by (simp_all add: new_manager_def)
  have ev: "map tid (fst (run example_dump new_manager example_calls)) = [1, 2, 3]"
    "map tid (tasks (snd (run example_dump new_manager example_calls))) = [2, 3]"
    by (simp_all add: example_calls_def new_manager_def add_task_def Task_init_def strip_def
        isspace_def Let_def save_to_storage_def save_def delete_task_def get_task_by_id_def
        list_remove_def)
  from ev(1) have len: "length (fst (run example_dump new_manager example_calls)) = 3"
    by (metis length_map length_Cons list.size(3) numeral_3_eq_3)
  from id_counter_monotone [OF a b prod.collapse [symmetric], of example_dump example_calls] len
  have "next_id (snd (run example_dump new_manager example_calls)) = 4" by simp
  with a b len ev(2) show ?thesis by simp
qed

section \<open>The record conversion of a task\<close>

text \<open>
  Claim C3. For every valid task \<open>t\<close>, rebuilding a task from the record \<^verbatim>\<open>to_dict\<close> makes
  of \<open>t\<close> succeeds and gives \<open>t\<close> again, equal in every field, the timestamp included.
\<close>

theorem from_dict_to_dict:
  "valid_Task t \<Longrightarrow> from_dict (JObj (to_dict t)) = Inr t"
  by (simp add: valid_Task_def from_dict_def to_dict_def fromisoformat_isoformat Task_init_def)

text \<open>The round trip of a task created at 09:26:53.000589 on 14 March 2025.\<close>

theorem from_dict_to_dict_witness:
  "valid_Task example_task \<and> from_dict (JObj (to_dict example_task)) = Inr example_task"
proof -
  have v: "valid_Task example_task"
    by (simp add: valid_Task_def example_task_def example_now_def valid_datetime_def
        days_in_month_def strip_def isspace_def)
  from v from_dict_to_dict [OF v] show ?thesis by simp
qed

section \<open>Calls with an id that is absent\<close>

text \<open>
  Claim C4. When no task of the list has the id \<open>task_id\<close>, \<^verbatim>\<open>delete_task\<close> and
  \<^verbatim>\<open>update_task\<close> both return \<^verbatim>\<open>False\<close> and the manager after the call is the manager before
  it: same task list, same counter, same files (nothing is saved), and so the same
  \<^verbatim>\<open>get_stats\<close>.
\<close>

theorem absent_id_no_effect:
  assumes "task_id \<notin> tid ` set (tasks m)"
  shows "delete_task json_dump m task_id env = (Inr False, m)
       \<and> update_task json_dump m task_id ttl descr env = (Inr False, m)
       \<and> get_stats (snd (delete_task json_dump m task_id env)) = get_stats m
       \<and> get_stats (snd (update_task json_dump m task_id ttl descr env)) = get_stats m"
proof -
  from assms have "position_by_id (tasks m) task_id = None"
    by (simp add: position_by_id_None)
  then show ?thesis
    by (simp add: delete_task_absent update_task_absent)
qed

text \<open>
  Deleting and updating id 7 in a manager that holds task 1 only.
\<close>

theorem absent_id_no_effect_witness:
  "7 \<notin> tid ` set (tasks (new_manager\<lparr>tasks := [example_task], next_id := 2\<rparr>))
   \<and> delete_task example_dump (new_manager\<lparr>tasks := [example_task], next_id := 2\<rparr>) 7 IoOk =
       (Inr False, new_manager\<lparr>tasks := [example_task], next_id := 2\<rparr>)
   \<and> update_task example_dump (new_manager\<lparr>tasks := [example_task], next_id := 2\<rparr>) 7
        (Some ''Buy bread'') None IoOk =
       (Inr False, new_manager\<lparr>tasks := [example_task], next_id := 2\<rparr>)"
proof -
  have a: "7 \<notin> tid ` set (tasks (new_manager\<lparr>tasks := [example_task], next_id := 2\<rparr>))"
    by (simp add: example_task_def)
  from a absent_id_no_effect [OF a, of example_dump IoOk "Some ''Buy bread''" None]
  show ?thesis by simp
qed

section \<open>Loading\<close>



section \<open>Updating a task\<close>



section \<open>Toggling twice\<close>

text \<open>
  Claim C7. When a task with the id \<open>task_id\<close> is present, two calls of \<^verbatim>\<open>toggle_complete\<close>
  on it both return \<^verbatim>\<open>True\<close>; after the first the task found under the id has the opposite
  completion flag, after the second it has the original one again, and the task list is
  the list before the two calls.
\<close>

theorem toggle_twice:
  assumes "task_id \<in> tid ` set (tasks m)"
    and "toggle_complete json_dump m task_id env1 = (res1, m1)"
    and "toggle_complete json_dump m1 task_id env2 = (res2, m2)"
  shows "res1 = Inr True \<and> res2 = Inr True
       \<and> map_option completed (get_task_by_id m1 task_id) =
           map_option (\<lambda>t. \<not> completed t) (get_task_by_id m task_id)
       \<and> map_option completed (get_task_by_id m2 task_id) =
           map_option completed (get_task_by_id m task_id)
       \<and> tasks m2 = tasks m"
proof -
  from assms(1) obtain r where r: "position_by_id (tasks m) task_id = Some r"
    by (cases "position_by_id (tasks m) task_id") (auto simp: position_by_id_None)
  from position_by_id_Some [OF r] have b: "r < length (tasks m)" by simp
  let ?t = "tasks m ! r"
  from assms(2) have res1: "res1 = Inr True"
    and t1: "tasks m1 = (tasks m)[r := ?t\<lparr>completed := \<not> completed ?t\<rparr>]"
    by (auto simp: toggle_complete_present [OF r] tasks_save_to_storage)
  have "map tid (tasks m1) = map tid (tasks m)"
    unfolding t1 using b by (simp add: map_tid_update)
  from position_by_id_map_tid [OF this] r
  have r1: "position_by_id (tasks m1) task_id = Some r"
    by simp
  from assms(3) have res2: "res2 = Inr True"
    and t2: "tasks m2 = (tasks m1)[r := (tasks m1 ! r)\<lparr>completed := \<not> completed (tasks m1 ! r)\<rparr>]"
    by (auto simp: toggle_complete_present [OF r1] tasks_save_to_storage)
  have same: "tasks m2 = tasks m"
    unfolding t2 t1 using b by (simp add: list_update_same_conv)
  have g: "get_task_by_id m task_id = Some (tasks m ! r)"
    by (simp add: get_task_by_id_def r)
  have g1: "get_task_by_id m1 task_id = Some (tasks m1 ! r)"
    by (simp add: get_task_by_id_def r1)
  have g2: "get_task_by_id m2 task_id = Some (tasks m ! r)"
    by (simp add: get_task_by_id_def same r)
  have c1: "completed (tasks m1 ! r) = (\<not> completed (tasks m ! r))"
    unfolding t1 using b by simp
  show ?thesis
    using res1 res2 same by (simp add: g g1 g2 c1)
qed

text \<open>
  Task 1 toggled twice.
\<close>

theorem toggle_twice_witness:
  "1 \<in> tid ` set (tasks example_manager)
   \<and> fst (toggle_complete example_dump example_manager 1 IoOk) = Inr True
   \<and> fst (toggle_complete example_dump
            (snd (toggle_complete example_dump example_manager 1 IoOk)) 1 IoOk) = Inr True
   \<and> tasks (snd (toggle_complete example_dump
            (snd (toggle_complete example_dump example_manager 1 IoOk)) 1 IoOk)) = [example_task]"
proof -
  have a: "1 \<in> tid ` set (tasks example_manager)"
    by (simp add: example_manager_def example_task_def)
  from a toggle_twice [OF a prod.collapse [symmetric] prod.collapse [symmetric],
      of example_dump IoOk IoOk]
  show ?thesis by (simp add: example_manager_def)
qed

section \<open>Statistics\<close>

text \<open>
  Claim C8. For every manager, \<^verbatim>\<open>get_stats\<close> returns the dictionary in which \<^verbatim>\<open>total\<close> is the
  length of the task list, \<^verbatim>\<open>completed\<close> is the number of tasks whose flag is set and
  \<^verbatim>\<open>pending\<close> is their difference, which is the number of tasks whose flag is not set. The
  call raises nothing and returns the manager as it was.
\<close>

theorem get_stats_counts:
  "get_stats m =
     (Inr [(''total'', int (length (tasks m))),
           (''completed'', int (length (filter completed (tasks m)))),
           (''pending'', int (length (tasks m)) - int (length (filter completed (tasks m))))], m)
   \<and> int (length (tasks m)) - int (length (filter completed (tasks m))) =
       int (length (filter (\<lambda>t. \<not> completed t) (tasks m)))"
proof -
  have "length (tasks m) =
          length (filter completed (tasks m)) + length (filter (\<lambda>t. \<not> completed t) (tasks m))"
    by (rule sum_length_filter_compl [symmetric])
  then show ?thesis
    by (simp add: get_stats_def Let_def sum_list_ones)
qed

section \<open>The backup made by \<^verbatim>\<open>save\<close>\<close>



section \<open>What \<^verbatim>\<open>toggle_complete\<close> leaves alone\<close>

text \<open>
  Claim C10. When a task with the id \<open>task_id\<close> is present, \<^verbatim>\<open>toggle_complete\<close> changes the
  first task with this id, at its position \<open>r\<close>, and only its completion flag, which is
  negated: its id, title, description and creation time are the same, every other position
  of the list holds the same task, the list has the same length, and the counter is the
  same.
\<close>

theorem toggle_complete_frame:
  assumes "task_id \<in> tid ` set (tasks m)"
  shows "\<exists>r < length (tasks m).
           tid (tasks m ! r) = task_id \<and> (\<forall>j<r. tid (tasks m ! j) \<noteq> task_id)
         \<and> tasks (snd (toggle_complete json_dump m task_id env)) =
             (tasks m)[r := (tasks m ! r)\<lparr>completed := \<not> completed (tasks m ! r)\<rparr>]
         \<and> length (tasks (snd (toggle_complete json_dump m task_id env))) = length (tasks m)
         \<and> (\<forall>j<length (tasks m). j \<noteq> r \<longrightarrow>
               tasks (snd (toggle_complete json_dump m task_id env)) ! j = tasks m ! j)
         \<and> tid (tasks (snd (toggle_complete json_dump m task_id env)) ! r) = tid (tasks m ! r)
         \<and> title (tasks (snd (toggle_complete json_dump m task_id env)) ! r) = title (tasks m ! r)
         \<and> description (tasks (snd (toggle_complete json_dump m task_id env)) ! r) =
             description (tasks m ! r)
         \<and> created_at (tasks (snd (toggle_complete json_dump m task_id env)) ! r) =
             created_at (tasks m ! r)
         \<and> completed (tasks (snd (toggle_complete json_dump m task_id env)) ! r) =
             (\<not> completed (tasks m ! r))
         \<and> next_id (snd (toggle_complete json_dump m task_id env)) = next_id m"
proof -
  from assms obtain r where r: "position_by_id (tasks m) task_id = Some r"
    by (cases "position_by_id (tasks m) task_id") (auto simp: position_by_id_None)
  from position_by_id_Some [OF r]
  have b: "r < length (tasks m)" "tid (tasks m ! r) = task_id" "\<forall>j<r. tid (tasks m ! j) \<noteq> task_id"
    by auto
  have t: "tasks (snd (toggle_complete json_dump m task_id env)) =
             (tasks m)[r := (tasks m ! r)\<lparr>completed := \<not> completed (tasks m ! r)\<rparr>]"
    by (simp add: toggle_complete_present [OF r] tasks_save_to_storage)
  have n: "next_id (snd (toggle_complete json_dump m task_id env)) = next_id m"
    by (simp add: toggle_complete_present [OF r] next_id_save_to_storage)
  show ?thesis
    using b by (intro exI [of _ r]) (simp add: t n)
qed

text \<open>
  Task 1 toggled once.
\<close>

theorem toggle_complete_frame_witness:
  "1 \<in> tid ` set (tasks example_manager)
   \<and> tasks (snd (toggle_complete example_dump example_manager 1 IoOk)) =
       [example_task\<lparr>completed := True\<rparr>]
   \<and> next_id (snd (toggle_complete example_dump example_manager 1 IoOk)) = 2"
proof -
  have a: "1 \<in> tid ` set (tasks example_manager)"
    by (simp add: example_manager_def example_task_def)
  from toggle_complete_frame [OF a, of example_dump IoOk]
  obtain r where "r < length (tasks example_manager)"
    and t: "tasks (snd (toggle_complete example_dump example_manager 1 IoOk)) =
      (tasks example_manager)[r := (tasks example_manager ! r)
         \<lparr>completed := \<not> completed (tasks example_manager ! r)\<rparr>]"
    and n: "next_id (snd (toggle_complete example_dump example_manager 1 IoOk)) =
      next_id example_manager"
    by blast
  then have "r = 0" by (simp add: example_manager_def)
  with t n a show ?thesis
    by (simp add: example_manager_def example_task_def)
qed

end
